theory Spec2Isabelle
  imports Complex_Main
begin

section \<open>Data model\<close>

text \<open>
  The interfaces declared at the end of \<^verbatim>\<open>src/App.tsx\<close>. A JavaScript number that
  holds seconds is a double: a \<^typ>\<open>real\<close> here, with every sum, quotient and product that
  the program computes rounded to the nearest double (section on double arithmetic below).
  Numbers that hold an index are \<^typ>\<open>int\<close>; a \<^verbatim>\<open>Blob\<close> is its bytes.

  \<^verbatim>\<open>JSON.parse(text) as AnalysisResult\<close> is an unchecked cast, and the response schema
  of \<^verbatim>\<open>geminiService.ts\<close> requires only \<^verbatim>\<open>timestamp\<close>, \<^verbatim>\<open>content\<close>,
  \<^verbatim>\<open>bestFrameIndex\<close> and \<^verbatim>\<open>highlightType\<close> of a timeline entry and has no
  \<^verbatim>\<open>timeOffset\<close> at all. So the keys that a parsed entry may lack are options here.
\<close>

type_synonym Blob = string

record FrameData =
  timeOffset :: real
  base64 :: string
  blob :: Blob

datatype HighlightType = Food | Scenery | Transport | Other

record TimelineItem =
  timestamp :: string
  timeOffset :: "real option"
  content :: string
  location :: "string option"
  foodItems :: "string list option"
  bestFrameIndex :: int
  highlightType :: HighlightType

record AnalysisResult =
  title :: string
  summary :: string
  timeline :: "TimelineItem list"
  vibe :: "string list"

text \<open>
  A thrown JavaScript value: an \<^verbatim>\<open>Error\<close> made by the code, or a \<^verbatim>\<open>SyntaxError\<close> or
  \<^verbatim>\<open>TypeError\<close> raised by the engine. Each carries its \<^verbatim>\<open>message\<close>.
\<close>

datatype js_error = Error string | SyntaxError string | TypeError string

fun message :: "js_error \<Rightarrow> string" where
  "message (Error m) = m"
| "message (SyntaxError m) = m"
| "message (TypeError m) = m"

section \<open>The analysis service (\<^verbatim>\<open>src/services/geminiService.ts\<close>)\<close>

text \<open>
  The message literals of the source are Chinese; a string here is a list of bytes, so each
  literal is written as its UTF-8 encoding.
\<close>

definition msg_no_api_key :: string where
  \<comment> \<open>the literal of \<^verbatim>\<open>getClient\<close>: no API key in the environment variables\<close>
  "msg_no_api_key =
     [CHR 0xE7, CHR 0x8E, CHR 0xAF, CHR 0xE5, CHR 0xA2, CHR 0x83, CHR 0xE5, CHR 0x8F, CHR 0x98,
      CHR 0xE9, CHR 0x87, CHR 0x8F, CHR 0xE4, CHR 0xB8, CHR 0xAD, CHR 0xE6, CHR 0x9C, CHR 0xAA,
      CHR 0xE6, CHR 0x89, CHR 0xBE, CHR 0xE5, CHR 0x88, CHR 0xB0] @ '' API Key''"

definition msg_no_result :: string where
  \<comment> \<open>the literal of line 105: the AI returned no result\<close>
  "msg_no_result =
     ''AI '' @ [CHR 0xE6, CHR 0x9C, CHR 0xAA, CHR 0xE8, CHR 0xBF, CHR 0x94, CHR 0xE5, CHR 0x9B,
      CHR 0x9E, CHR 0xE7, CHR 0xBB, CHR 0x93, CHR 0xE6, CHR 0x9E, CHR 0x9C]"

definition msg_undefined_read :: string where
  \<comment> \<open>the engine's message for reading a property of \<^verbatim>\<open>undefined\<close> (V8's wording, the
      property name between single quotes)\<close>
  "msg_undefined_read =
     ''Cannot read properties of undefined (reading '' @ [CHR 0x27] @ ''timeOffset'' @
     [CHR 0x27] @ '')''"

text \<open>
  What the service does not compute itself: the environment variable, the remote call
  \<^verbatim>\<open>ai.models.generateContent\<close> (it throws, or yields a response whose \<^verbatim>\<open>text\<close> may be
  undefined) and \<^verbatim>\<open>JSON.parse\<close> (it throws a \<^verbatim>\<open>SyntaxError\<close>, or yields the value that
  the cast takes for an \<^verbatim>\<open>AnalysisResult\<close>).
\<close>

datatype part = InstructionText | InlineData string string

record GeminiEnv =
  API_KEY :: "string option"
  generateContent :: "part list \<Rightarrow> js_error + string option"
  JSON_parse :: "string \<Rightarrow> js_error + AnalysisResult"

definition getClient :: "string option \<Rightarrow> js_error + unit" where
  "getClient apiKey =
     (if apiKey = None \<or> apiKey = Some [] then Inl (Error msg_no_api_key) else Inr ())"

definition contentParts :: "FrameData list \<Rightarrow> part list" where
  \<comment> \<open>the fixed instruction text, then one JPEG part per frame in order\<close>
  "contentParts fs = InstructionText # map (\<lambda>frame. InlineData ''image/jpeg'' (base64 frame)) fs"

text \<open>
  \<^verbatim>\<open>frames[i]\<close> on a JavaScript array: the element when \<open>0 \<le> i < length\<close>, otherwise
  \<^verbatim>\<open>undefined\<close>.
\<close>

definition frame_at :: "FrameData list \<Rightarrow> int \<Rightarrow> FrameData option" where
  "frame_at fs i = (if 0 \<le> i \<and> i < int (length fs) then Some (fs ! nat i) else None)"

definition safeIndex :: "FrameData list \<Rightarrow> TimelineItem \<Rightarrow> int" where
  \<comment> \<open>line 111: \<^verbatim>\<open>Math.min(Math.max(0, item.bestFrameIndex), frames.length - 1)\<close>\<close>
  "safeIndex fs item = min (max 0 (bestFrameIndex item)) (int (length fs) - 1)"

definition processItem :: "FrameData list \<Rightarrow> TimelineItem \<Rightarrow> js_error + TimelineItem" where
  \<comment> \<open>lines 110-119, the callback of \<^verbatim>\<open>result.timeline.map\<close>; reading
      \<^verbatim>\<open>.timeOffset\<close> of \<^verbatim>\<open>undefined\<close> throws a TypeError\<close>
  "processItem fs item =
     (case frame_at fs (safeIndex fs item) of
        None \<Rightarrow> Inl (TypeError msg_undefined_read)
      | Some frame \<Rightarrow>
          Inr (item\<lparr>bestFrameIndex := safeIndex fs item,
                    timeOffset := Some (FrameData.timeOffset frame)\<rparr>))"

text \<open>\<^verbatim>\<open>Array.prototype.map\<close> with a callback that can throw: the first throw ends the map.\<close>

fun map_throwing :: "('a \<Rightarrow> js_error + 'b) \<Rightarrow> 'a list \<Rightarrow> js_error + 'b list" where
  "map_throwing f [] = Inr []"
| "map_throwing f (x # xs) =
     (case f x of
        Inl e \<Rightarrow> Inl e
      | Inr y \<Rightarrow> (case map_throwing f xs of Inl e \<Rightarrow> Inl e | Inr ys \<Rightarrow> Inr (y # ys)))"

definition reconcile :: "FrameData list \<Rightarrow> AnalysisResult \<Rightarrow> js_error + AnalysisResult" where
  \<comment> \<open>lines 110-124: \<^verbatim>\<open>processedTimeline\<close>, then \<^verbatim>\<open>{...result, timeline: processedTimeline}\<close>\<close>
  "reconcile fs result =
     (case map_throwing (processItem fs) (timeline result) of
        Inl e \<Rightarrow> Inl e
      | Inr processedTimeline \<Rightarrow> Inr (result\<lparr>timeline := processedTimeline\<rparr>))"

definition analyzeVideoFrames :: "GeminiEnv \<Rightarrow> FrameData list \<Rightarrow> js_error + AnalysisResult" where
  \<comment> \<open>\<^verbatim>\<open>!text\<close> holds for an undefined and for an empty text; the \<^verbatim>\<open>catch\<close> rethrows\<close>
  "analyzeVideoFrames env fs =
     (case getClient (API_KEY env) of
        Inl e \<Rightarrow> Inl e
      | Inr _ \<Rightarrow>
          (case generateContent env (contentParts fs) of
             Inl e \<Rightarrow> Inl e
           | Inr None \<Rightarrow> Inl (Error msg_no_result)
           | Inr (Some text) \<Rightarrow>
               if text = [] then Inl (Error msg_no_result)
               else (case JSON_parse env text of
                       Inl e \<Rightarrow> Inl e
                     | Inr result \<Rightarrow> reconcile fs result)))"

section \<open>Double arithmetic\<close>

text \<open>
  A finite IEEE binary64 number is a real number, and the double result of an arithmetic
  operation is the exact result rounded to the nearest double, ties to the even significand.
  \<open>exponent x\<close> is the \<open>e\<close> with \<open>2^e \<le> x < 2^(e+1)\<close> for a positive \<open>x\<close>. Doubles have 53
  significant bits, so around \<open>x\<close> they are the multiples of \<open>2^(e-52)\<close>; below \<open>2^-1022\<close>
  (subnormal numbers) they are the multiples of \<open>2^-1074\<close>. Overflow to \<^verbatim>\<open>Infinity\<close> is
  not covered: magnitudes stay below \<open>2^1024\<close>.
\<close>

function exponent :: "real \<Rightarrow> int" where
  "exponent x =
     (if x \<le> 0 then 0
      else if x < 1 then exponent (2 * x) - 1
      else if 2 \<le> x then exponent (x / 2) + 1
      else 0)"
  by pat_completeness auto

termination
proof (relation "measure (\<lambda>x. nat \<bar>\<lfloor>log 2 x\<rfloor>\<bar>)")
  show "wf (measure (\<lambda>x. nat \<bar>\<lfloor>log 2 x\<rfloor>\<bar>))" by simp
next
  fix x :: real
  assume "\<not> x \<le> 0" "x < 1"
  then have pos: "0 < x" by simp
  have "log 2 (2 * x) = 1 + log 2 x"
    using pos by (simp add: log_mult)
  then have eq: "\<lfloor>log 2 (2 * x)\<rfloor> = \<lfloor>log 2 x\<rfloor> + 1"
    by simp
  from pos \<open>x < 1\<close> have "log 2 x < 0" by simp
  then have "\<lfloor>log 2 x\<rfloor> < 0" by linarith
  then show "(2 * x, x) \<in> measure (\<lambda>x. nat \<bar>\<lfloor>log 2 x\<rfloor>\<bar>)"
    unfolding in_measure eq by linarith
next
  fix x :: real
  assume "\<not> x \<le> 0" "\<not> x < 1" "2 \<le> x"
  then have pos: "0 < x" by simp
  have "log 2 (x / 2) = log 2 x - 1"
    using pos by (simp add: log_divide)
  then have eq: "\<lfloor>log 2 (x / 2)\<rfloor> = \<lfloor>log 2 x\<rfloor> - 1"
    by simp
  from \<open>2 \<le> x\<close> have "1 \<le> log 2 x"
    using log_le_cancel_iff [of 2 2 x] by simp
  then have "1 \<le> \<lfloor>log 2 x\<rfloor>" by linarith
  then show "(x / 2, x) \<in> measure (\<lambda>x. nat \<bar>\<lfloor>log 2 x\<rfloor>\<bar>)"
    unfolding in_measure eq by linarith
qed

declare exponent.simps [simp del]

definition round_even :: "real \<Rightarrow> int" where
  \<comment> \<open>the nearest integer, the even one of two equally near\<close>
  "round_even m =
     (let r = \<lfloor>m\<rfloor>; d = m - of_int r
      in if d < 1 / 2 then r else if 1 / 2 < d then r + 1 else if even r then r else r + 1)"

definition ulp_exp :: "real \<Rightarrow> int" where
  \<comment> \<open>the exponent of the spacing of the doubles around a positive \<open>x\<close>\<close>
  "ulp_exp x = max (exponent x) (- 1022) - 52"

definition binary64 :: "real \<Rightarrow> real" where
  "binary64 x =
     sgn x * (of_int (round_even (\<bar>x\<bar> / 2 powi ulp_exp \<bar>x\<bar>)) * 2 powi ulp_exp \<bar>x\<bar>)"

section \<open>The frame sampler (\<^verbatim>\<open>extractFramesFromVideo\<close>, \<^verbatim>\<open>src/unnamed/part_000\<close>)\<close>

text \<open>
  The video element either fires \<^verbatim>\<open>error\<close> or fires \<^verbatim>\<open>loadedmetadata\<close> with a
  duration and the source dimensions (\<^verbatim>\<open>videoWidth\<close> and \<^verbatim>\<open>videoHeight\<close> are unsigned
  integers). The canvas is the other collaborator: whether a 2d context exists, and what
  \<^verbatim>\<open>toDataURL(...).split(',')[1]\<close> and \<^verbatim>\<open>toBlob\<close> give for the image drawn at a canvas
  size and a playback position (\<^verbatim>\<open>toBlob\<close> may hand \<^verbatim>\<open>null\<close> to its callback).
\<close>

record VideoMetadata =
  duration :: real
  videoWidth :: nat
  videoHeight :: nat

datatype VideoFile = LoadError | LoadedMetadata VideoMetadata

record Browser =
  getContext :: bool
  toDataURL :: "nat \<times> nat \<Rightarrow> real \<Rightarrow> string"
  toBlob :: "nat \<times> nat \<Rightarrow> real \<Rightarrow> Blob option"

definition msg_no_canvas :: string where
  \<comment> \<open>the literal of line 19: the canvas context cannot be created\<close>
  "msg_no_canvas =
     [CHR 0xE6, CHR 0x97, CHR 0xA0, CHR 0xE6, CHR 0xB3, CHR 0x95, CHR 0xE5, CHR 0x88, CHR 0x9B,
      CHR 0xE5, CHR 0xBB, CHR 0xBA] @ ''Canvas'' @
     [CHR 0xE4, CHR 0xB8, CHR 0x8A, CHR 0xE4, CHR 0xB8, CHR 0x8B, CHR 0xE6, CHR 0x96, CHR 0x87]"

definition msg_load_failed :: string where
  \<comment> \<open>the literal of line 75: loading the video failed, check the file format\<close>
  "msg_load_failed =
     [CHR 0xE8, CHR 0xA7, CHR 0x86, CHR 0xE9, CHR 0xA2, CHR 0x91, CHR 0xE5, CHR 0x8A, CHR 0xA0,
      CHR 0xE8, CHR 0xBD, CHR 0xBD, CHR 0xE5, CHR 0xA4, CHR 0xB1, CHR 0xE8, CHR 0xB4, CHR 0xA5,
      CHR 0xEF, CHR 0xBC, CHR 0x8C, CHR 0xE8, CHR 0xAF, CHR 0xB7, CHR 0xE6, CHR 0xA3, CHR 0x80,
      CHR 0xE6, CHR 0x9F, CHR 0xA5, CHR 0xE6, CHR 0x96, CHR 0x87, CHR 0xE4, CHR 0xBB, CHR 0xB6,
      CHR 0xE6, CHR 0xA0, CHR 0xBC, CHR 0xE5, CHR 0xBC, CHR 0x8F]"

definition MAX_WIDTH :: nat where
  "MAX_WIDTH = 960"

definition scale :: "nat \<Rightarrow> real" where
  \<comment> \<open>line 59: \<^verbatim>\<open>Math.min(1, MAX_WIDTH / video.videoWidth)\<close>. For a width of 0 the
      JavaScript quotient is \<^verbatim>\<open>Infinity\<close> and the minimum is 1; HOL's \<open>x / 0\<close> is 0, so
      the case is written out.\<close>
  "scale w = (if w = 0 then 1 else min 1 (binary64 (real MAX_WIDTH / real w)))"

definition canvas_width :: "VideoMetadata \<Rightarrow> nat" where
  \<comment> \<open>line 60; a canvas dimension is an unsigned integer attribute, the assigned double
      is truncated\<close>
  "canvas_width md = nat \<lfloor>binary64 (real (videoWidth md) * scale (videoWidth md))\<rfloor>"

definition canvas_height :: "VideoMetadata \<Rightarrow> nat" where
  \<comment> \<open>line 61\<close>
  "canvas_height md = nat \<lfloor>binary64 (real (videoHeight md) * scale (videoWidth md))\<rfloor>"

definition sampling_interval :: "real \<Rightarrow> nat \<Rightarrow> real" where
  \<comment> \<open>line 65: \<^verbatim>\<open>Math.max(0.5, video.duration / targetFrameCount)\<close>. With a target of 0
      JavaScript divides to \<^verbatim>\<open>Infinity\<close> where HOL gives 0; the interval is then never
      read, because \<^verbatim>\<open>frames.length >= 0\<close> resolves at the first \<^verbatim>\<open>seeked\<close> event.\<close>
  "sampling_interval dur targetFrameCount =
     max (1 / 2) (binary64 (dur / real targetFrameCount))"

text \<open>
  The \<^verbatim>\<open>seeked\<close> / \<^verbatim>\<open>captureFrame\<close> cycle (lines 33-56 and 70-72) as a loop over the
  playback position and the frames so far. The result is \<open>None\<close> when the cycle never
  resolves. The position read after \<^verbatim>\<open>video.currentTime += interval\<close> is the requested
  one, the double sum of the position and the interval. A media element that bounds a
  requested position by the duration gives the same frames: a position at or past the
  duration only meets the guard of line 34 and is never written into a frame. Durations are
  finite numbers here (no \<^verbatim>\<open>NaN\<close>, no \<^verbatim>\<open>Infinity\<close>).
\<close>

partial_function (option) captureFrame ::
  "Browser \<Rightarrow> nat \<times> nat \<Rightarrow> real \<Rightarrow> nat \<Rightarrow> real \<Rightarrow> real \<Rightarrow> FrameData list \<Rightarrow> FrameData list option"
where
  "captureFrame b canvas dur targetFrameCount interval currentTime fs =
     (if currentTime \<ge> dur \<or> length fs \<ge> targetFrameCount then Some fs
      else captureFrame b canvas dur targetFrameCount interval
             (binary64 (currentTime + interval))
             (case toBlob b canvas currentTime of
                None \<Rightarrow> fs
              | Some bl \<Rightarrow>
                  fs @ [\<lparr>FrameData.timeOffset = currentTime,
                         base64 = toDataURL b canvas currentTime,
                         blob = bl\<rparr>]))"

definition extractFramesFromVideo ::
  "Browser \<Rightarrow> VideoFile \<Rightarrow> nat \<Rightarrow> (js_error + FrameData list) option"
where
  \<comment> \<open>\<open>Some (Inr fs)\<close>: the promise resolves with \<open>fs\<close>; \<open>Some (Inl e)\<close>: it rejects with
      \<open>e\<close>; \<open>None\<close>: it never settles\<close>
  "extractFramesFromVideo b file targetFrameCount =
     (if \<not> getContext b then Some (Inl (Error msg_no_canvas))
      else case file of
        LoadError \<Rightarrow> Some (Inl (Error msg_load_failed))
      | LoadedMetadata md \<Rightarrow>
          map_option Inr
            (captureFrame b (canvas_width md, canvas_height md) (duration md) targetFrameCount
               (sampling_interval (duration md) targetFrameCount) 0 []))"

section \<open>The orchestrator (\<^verbatim>\<open>processProject\<close>, \<^verbatim>\<open>src/App.tsx\<close>)\<close>

datatype ProjectStatus = Idle | Extracting | Analyzing | Done | Errored

text \<open>
  The uploaded \<^verbatim>\<open>File\<close> is what the video element makes of it. The fields
  \<^verbatim>\<open>id\<close> and \<^verbatim>\<open>file\<close> are spelled \<open>project_id\<close> and \<open>videoFile\<close> (\<open>id\<close> is HOL's
  identity function, \<open>file\<close> a keyword).
\<close>

record Project =
  project_id :: string
  customName :: "string option"
  videoFile :: VideoFile
  status :: ProjectStatus
  frames :: "FrameData list"
  result :: "AnalysisResult option"
  error :: "string option"
  createdAt :: nat

definition msg_processing_failed :: string where
  \<comment> \<open>the fallback literal of line 65: processing failed\<close>
  "msg_processing_failed =
     [CHR 0xE5, CHR 0xA4, CHR 0x84, CHR 0xE7, CHR 0x90, CHR 0x86, CHR 0xE5, CHR 0xA4, CHR 0xB1,
      CHR 0xE8, CHR 0xB4, CHR 0xA5]"

definition updateProject :: "string \<Rightarrow> (Project \<Rightarrow> Project) \<Rightarrow> Project list \<Rightarrow> Project list" where
  "updateProject pid updates prev = map (\<lambda>p. if project_id p = pid then updates p else p) prev"

definition updateProjectStatus :: "string \<Rightarrow> ProjectStatus \<Rightarrow> Project list \<Rightarrow> Project list" where
  "updateProjectStatus pid st prev =
     map (\<lambda>p. if project_id p = pid then p\<lparr>status := st\<rparr> else p) prev"

definition on_catch :: "string \<Rightarrow> js_error \<Rightarrow> Project list \<Rightarrow> Project list" where
  \<comment> \<open>lines 63-66; \<^verbatim>\<open>err.message || fallback\<close> takes the fallback for an empty message\<close>
  "on_catch pid err prev =
     updateProject pid
       (\<lambda>p. p\<lparr>status := Errored,
               error := Some (if message err = [] then msg_processing_failed else message err)\<rparr>)
       prev"

definition processProject ::
  "Browser \<Rightarrow> GeminiEnv \<Rightarrow> string \<Rightarrow> VideoFile \<Rightarrow> Project list \<Rightarrow> Project list"
where
  \<comment> \<open>lines 51-67, the project collection after the pipeline of one project has run; when
      the sampler never settles the project stays in \<open>Extracting\<close>\<close>
  "processProject b env pid f prev =
     (let extracting = updateProjectStatus pid Extracting prev in
      case extractFramesFromVideo b f 120 of
        None \<Rightarrow> extracting
      | Some (Inl err) \<Rightarrow> on_catch pid err extracting
      | Some (Inr fs) \<Rightarrow>
          (let analyzing = updateProject pid (\<lambda>p. p\<lparr>frames := fs, status := Analyzing\<rparr>) extracting
           in case analyzeVideoFrames env fs of
                Inl err \<Rightarrow> on_catch pid err analyzing
              | Inr r \<Rightarrow> updateProject pid (\<lambda>p. p\<lparr>result := Some r, status := Done\<rparr>) analyzing))"

section \<open>Closed forms used in the statements\<close>

text \<open>
  What the \<^verbatim>\<open>map\<close> callback returns for an entry when its frame lookup succeeds.
\<close>

definition resolved :: "FrameData list \<Rightarrow> TimelineItem \<Rightarrow> TimelineItem" where
  "resolved fs item =
     item\<lparr>bestFrameIndex := safeIndex fs item,
          timeOffset := Some (FrameData.timeOffset (fs ! nat (safeIndex fs item)))\<rparr>"

text \<open>
  One capture at playback position \<open>t\<close> (lines 41-51: a frame when \<^verbatim>\<open>toBlob\<close> yields a
  blob, nothing otherwise), and the positions that the sampler goes through from \<open>t\<close>: \<open>t\<close>,
  then the double sum of \<open>t\<close> and the interval, then the double sum of that and the interval,
  and so on while the position is below the duration; at most \<open>k\<close> of them.
\<close>

definition snapshot :: "Browser \<Rightarrow> nat \<times> nat \<Rightarrow> real \<Rightarrow> FrameData option" where
  "snapshot b canvas t =
     map_option (\<lambda>bl. \<lparr>FrameData.timeOffset = t, base64 = toDataURL b canvas t, blob = bl\<rparr>)
       (toBlob b canvas t)"

fun seek_times :: "real \<Rightarrow> real \<Rightarrow> nat \<Rightarrow> real \<Rightarrow> real list" where
  "seek_times dur interval 0 t = []"
| "seek_times dur interval (Suc k) t =
     (if dur \<le> t then [] else t # seek_times dur interval k (binary64 (t + interval)))"

section \<open>Concrete inputs\<close>

definition ten_frames :: "FrameData list" where
  "ten_frames =
     map (\<lambda>k. \<lparr>FrameData.timeOffset = real k / 2, base64 = ''jpeg'', blob = ''bytes''\<rparr>) [0..<10]"

definition raw_item :: "int \<Rightarrow> TimelineItem" where
  "raw_item k =
     \<lparr>timestamp = ''00:07'', timeOffset = None, content = ''noodle stall'', location = None,
      foodItems = Some [''noodles''], bestFrameIndex = k, highlightType = Food\<rparr>"

definition raw_result :: AnalysisResult where
  "raw_result =
     \<lparr>title = ''Night market'', summary = ''A walk'',
      timeline = [raw_item 999, raw_item (- 3), raw_item 4], vibe = [''street food'']\<rparr>"

definition settled_result :: AnalysisResult where
  "settled_result =
     \<lparr>title = ''Night market'', summary = ''A walk'',
      timeline = [(raw_item 9)\<lparr>timeOffset := Some (9 / 2)\<rparr>, (raw_item 0)\<lparr>timeOffset := Some 0\<rparr>],
      vibe = [''street food'']\<rparr>"

definition steady_browser :: Browser where
  "steady_browser =
     \<lparr>getContext = True, toDataURL = (\<lambda>canvas t. ''jpeg''), toBlob = (\<lambda>canvas t. Some ''bytes'')\<rparr>"

definition clip :: "real \<Rightarrow> VideoMetadata" where
  "clip d = \<lparr>duration = d, videoWidth = 1920, videoHeight = 1080\<rparr>"

definition silent_env :: GeminiEnv where
  "silent_env =
     \<lparr>API_KEY = Some ''key'', generateContent = (\<lambda>parts. Inr None),
      JSON_parse = (\<lambda>text. Inl (SyntaxError ''Unexpected end of JSON input''))\<rparr>"

definition answering_env :: GeminiEnv where
  "answering_env =
     \<lparr>API_KEY = Some ''key'', generateContent = (\<lambda>parts. Inr (Some ''{...}'')),
      JSON_parse = (\<lambda>text. Inr raw_result)\<rparr>"

definition fresh_project :: "string \<Rightarrow> Project" where
  "fresh_project pid =
     \<lparr>project_id = pid, customName = None, videoFile = LoadedMetadata (clip 1),
      status = Idle, frames = [], result = None, error = None, createdAt = 0\<rparr>"

definition still :: "real \<Rightarrow> FrameData" where
  "still t = \<lparr>FrameData.timeOffset = t, base64 = ''jpeg'', blob = ''bytes''\<rparr>"



definition first_blob_null_browser :: Browser where
  "first_blob_null_browser =
     \<lparr>getContext = True, toDataURL = (\<lambda>canvas t. ''jpeg''),
      toBlob = (\<lambda>canvas t. if t = 0 then None else Some ''bytes'')\<rparr>"

section \<open>The reconciliation step\<close>

lemma safeIndex_clamp:
  "fs \<noteq> [] \<Longrightarrow> safeIndex fs item = max 0 (min (bestFrameIndex item) (int (length fs) - 1))"
  by (cases fs) (simp_all add: safeIndex_def)

lemma safeIndex_range:
  "fs \<noteq> [] \<Longrightarrow> 0 \<le> safeIndex fs item \<and> safeIndex fs item \<le> int (length fs) - 1"
  by (cases fs) (simp_all add: safeIndex_def)

lemma processItem_nonempty:
  assumes "fs \<noteq> []"
  shows "processItem fs item =
    Inr (item\<lparr>bestFrameIndex := safeIndex fs item,
              timeOffset := Some (FrameData.timeOffset (fs ! nat (safeIndex fs item)))\<rparr>)"
proof -
  from safeIndex_range [OF assms, of item]
  have "frame_at fs (safeIndex fs item) = Some (fs ! nat (safeIndex fs item))"
    by (simp add: frame_at_def)
  then show ?thesis by (simp add: processItem_def)
qed

lemma map_throwing_total:
  "(\<And>x. x \<in> set xs \<Longrightarrow> f x = Inr (g x)) \<Longrightarrow> map_throwing f xs = Inr (map g xs)"
  by (induction xs) simp_all

lemma map_throwing_first_throw:
  "f x = Inl e \<Longrightarrow> map_throwing f (x # xs) = Inl e"
  by simp
lemma reconcile_nonempty:
  assumes "fs \<noteq> []"
  shows "reconcile fs r = Inr (r\<lparr>timeline := map (resolved fs) (timeline r)\<rparr>)"
proof -
  have "map_throwing (processItem fs) (timeline r) = Inr (map (resolved fs) (timeline r))"
    by (rule map_throwing_total) (simp add: processItem_nonempty [OF assms] resolved_def)
  then show ?thesis by (simp add: reconcile_def)
qed
lemma ten_frames_nonempty: "ten_frames \<noteq> []"
  by (simp add: ten_frames_def upt_rec)

text \<open>
  C1. For a non-empty frame sequence of length \<open>N\<close> the reconciliation step returns a
  result, and each event of it has \<open>bestFrameIndex = max 0 (min raw (N - 1))\<close> for the raw
  index of the entry at the same position (whatever integer that is), the index lies in
  \<open>[0, N - 1]\<close>, and the event's \<open>timeOffset\<close> is the \<open>timeOffset\<close> of the frame at the
  clamped index.
\<close>

theorem C1_clamped_index_and_offset:
  assumes "fs \<noteq> []"
  shows "\<exists>r'. reconcile fs r = Inr r' \<and> length (timeline r') = length (timeline r) \<and>
    (\<forall>i < length (timeline r).
       bestFrameIndex (timeline r' ! i)
         = max 0 (min (bestFrameIndex (timeline r ! i)) (int (length fs) - 1)) \<and>
       0 \<le> bestFrameIndex (timeline r' ! i) \<and>
       bestFrameIndex (timeline r' ! i) \<le> int (length fs) - 1 \<and>
       timeOffset (timeline r' ! i)
         = Some (FrameData.timeOffset (fs ! nat (bestFrameIndex (timeline r' ! i)))))"
  using assms safeIndex_range [OF assms]
  by (simp add: reconcile_nonempty resolved_def safeIndex_clamp [symmetric])

theorem C1_clamped_index_and_offset_witness:
  "ten_frames \<noteq> [] \<and>
   (\<exists>r'. reconcile ten_frames raw_result = Inr r' \<and>
      map bestFrameIndex (timeline r') = [9, 0, 4] \<and>
      map timeOffset (timeline r') = [Some (9 / 2), Some 0, Some 2])"
proof -
  from C1_clamped_index_and_offset [OF ten_frames_nonempty, of raw_result] obtain r'
    where run: "reconcile ten_frames raw_result = Inr r'"
      and len: "length (timeline r') = length (timeline raw_result)"
      and each: "\<forall>i < length (timeline raw_result).
        bestFrameIndex (timeline r' ! i)
          = max 0 (min (bestFrameIndex (timeline raw_result ! i)) (int (length ten_frames) - 1)) \<and>
        timeOffset (timeline r' ! i)
          = Some (FrameData.timeOffset (ten_frames ! nat (bestFrameIndex (timeline r' ! i))))"
    by blast
  from len obtain a b c where tl: "timeline r' = [a, b, c]"
    by (auto simp: raw_result_def length_Suc_conv)
  from each [rule_format, of 0] each [rule_format, of 1] each [rule_format, of 2]
  have "map bestFrameIndex (timeline r') = [9, 0, 4] \<and>
      map timeOffset (timeline r') = [Some (9 / 2), Some 0, Some 2]"
    by (simp add: tl raw_result_def raw_item_def ten_frames_def)
  with run ten_frames_nonempty show ?thesis by auto
qed

text \<open>
  C2. For a non-empty frame sequence the reconciled timeline has the length and the order of
  the raw one; title, summary and vibe are unchanged; timestamp, content, location,
  foodItems and highlightType of every entry are unchanged; and each reconciled event is
  its raw entry with at most \<open>bestFrameIndex\<close> and \<open>timeOffset\<close> replaced.
\<close>

theorem C2_passthrough:
  assumes "fs \<noteq> []"
  shows "\<exists>r'. reconcile fs r = Inr r' \<and>
    title r' = title r \<and> summary r' = summary r \<and> vibe r' = vibe r \<and>
    length (timeline r') = length (timeline r) \<and>
    map timestamp (timeline r') = map timestamp (timeline r) \<and>
    map content (timeline r') = map content (timeline r) \<and>
    map location (timeline r') = map location (timeline r) \<and>
    map foodItems (timeline r') = map foodItems (timeline r) \<and>
    map highlightType (timeline r') = map highlightType (timeline r) \<and>
    (\<forall>i < length (timeline r). \<exists>k t.
       timeline r' ! i = (timeline r ! i)\<lparr>bestFrameIndex := k, timeOffset := t\<rparr>)"
  apply (simp add: reconcile_nonempty [OF assms] resolved_def comp_def)
  by blast

theorem C2_passthrough_witness:
  "ten_frames \<noteq> [] \<and>
   (\<exists>r'. reconcile ten_frames raw_result = Inr r' \<and>
      title r' = ''Night market'' \<and> vibe r' = [''street food''] \<and>
      map timestamp (timeline r') = [''00:07'', ''00:07'', ''00:07''] \<and>
      map foodItems (timeline r') = [Some [''noodles''], Some [''noodles''], Some [''noodles'']])"
  using C2_passthrough [OF ten_frames_nonempty, of raw_result] ten_frames_nonempty
  by (auto simp: raw_result_def raw_item_def)

text \<open>
  C3. Reconciling a result whose indices are already in range and whose offsets already are
  those of the indexed frames, against the same non-empty frame sequence, returns the
  input.
\<close>

theorem C3_idempotent:
  assumes "fs \<noteq> []"
    and "\<forall>item \<in> set (timeline r).
           0 \<le> bestFrameIndex item \<and> bestFrameIndex item \<le> int (length fs) - 1 \<and>
           timeOffset item = Some (FrameData.timeOffset (fs ! nat (bestFrameIndex item)))"
  shows "reconcile fs r = Inr r"
proof -
  have "resolved fs item = item" if "item \<in> set (timeline r)" for item
  proof -
    from that assms(2) have "safeIndex fs item = bestFrameIndex item"
      by (auto simp: safeIndex_def)
    with that assms(2) show ?thesis by (simp add: resolved_def)
  qed
  then have "map (resolved fs) (timeline r) = timeline r"
    by (simp add: map_idI)
  then show ?thesis by (simp add: reconcile_nonempty [OF assms(1)])
qed

theorem C3_idempotent_witness:
  "ten_frames \<noteq> [] \<and> reconcile ten_frames settled_result = Inr settled_result"
proof -
  have "\<forall>item \<in> set (timeline settled_result).
      0 \<le> bestFrameIndex item \<and> bestFrameIndex item \<le> int (length ten_frames) - 1 \<and>
      timeOffset item = Some (FrameData.timeOffset (ten_frames ! nat (bestFrameIndex item)))"
    by (simp add: settled_result_def raw_item_def ten_frames_def)
  from C3_idempotent [OF ten_frames_nonempty this] ten_frames_nonempty show ?thesis by simp
qed

section \<open>Properties of the double rounding\<close>

lemma exponent_bounds:
  "0 < x \<Longrightarrow> 2 powi (exponent x) \<le> x \<and> x < 2 powi (exponent x + 1)"
proof (induction x rule: exponent.induct)
  case (1 x)
  show ?case
  proof (cases "x < 1")
    case True
    with "1.prems" have e: "exponent x = exponent (2 * x) - 1"
      by (subst exponent.simps) simp
    from "1.IH"(1) "1.prems" True
    have "2 powi (exponent (2 * x)) \<le> 2 * x \<and> 2 * x < 2 powi (exponent (2 * x) + 1)"
      by simp
    then show ?thesis
      by (simp add: e power_int_diff power_int_add)
  next
    case False
    show ?thesis
    proof (cases "2 \<le> x")
      case True
      with "1.prems" False have e: "exponent x = exponent (x / 2) + 1"
        by (subst exponent.simps) simp
      from "1.IH"(2) "1.prems" False True
      have "2 powi (exponent (x / 2)) \<le> x / 2 \<and> x / 2 < 2 powi (exponent (x / 2) + 1)"
        by simp
      then show ?thesis
        by (simp add: e power_int_add)
    next
      case ge: False
      with "1.prems" False have "exponent x = 0"
        by (subst exponent.simps) simp
      with False ge show ?thesis by simp
    qed
  qed
qed

lemma round_even_of_int: "round_even (of_int k) = k"
  by (simp add: round_even_def)

lemma round_even_mono:
  assumes "a \<le> b"
  shows "round_even a \<le> round_even b"
proof (cases "\<lfloor>a\<rfloor> = \<lfloor>b\<rfloor>")
  case True
  with assms show ?thesis
    by (auto simp: round_even_def Let_def)
next
  case False
  with floor_mono [OF assms] have "\<lfloor>a\<rfloor> < \<lfloor>b\<rfloor>" by linarith
  moreover have "round_even a \<le> \<lfloor>a\<rfloor> + 1" and "\<lfloor>b\<rfloor> \<le> round_even b"
    by (simp_all add: round_even_def Let_def)
  ultimately show ?thesis by linarith
qed


lemma round_even_le: "m \<le> of_int k \<Longrightarrow> round_even m \<le> k"
  using round_even_mono [of m "of_int k"] by (simp add: round_even_of_int)

lemma round_even_ge: "of_int k \<le> m \<Longrightarrow> k \<le> round_even m"
  using round_even_mono [of "of_int k" m] by (simp add: round_even_of_int)

lemma binary64_pos:
  "0 < x \<Longrightarrow> binary64 x = of_int (round_even (x / 2 powi ulp_exp x)) * 2 powi ulp_exp x"
  by (simp add: binary64_def)

lemma binary64_0: "binary64 0 = 0"
  by (simp add: binary64_def)

lemma two_powi_split53: "(2::real) powi (e + 53) = 2 powi e * 2 ^ 53"
  by (simp add: power_int_add)

lemma two_powi_split52: "(2::real) powi (e + 52) = 2 powi e * 2 ^ 52"
  by (simp add: power_int_add)

lemma binary64_upper:
  assumes "0 < x"
  shows "binary64 x \<le> 2 powi (ulp_exp x + 53)"
proof -
  let ?q = "(2::real) powi ulp_exp x"
  have q: "0 < ?q" by simp
  have "exponent x + 1 \<le> ulp_exp x + 53" by (simp add: ulp_exp_def)
  then have "(2::real) powi (exponent x + 1) \<le> 2 powi (ulp_exp x + 53)"
    by (intro power_int_increasing) simp_all
  with exponent_bounds [OF assms] have "x \<le> ?q * 2 ^ 53"
    by (simp add: two_powi_split53)
  then have "x / ?q \<le> of_int (2 ^ 53)"
    using q by (simp add: field_simps)
  then have "round_even (x / ?q) \<le> 2 ^ 53" by (rule round_even_le)
  then have "(of_int (round_even (x / ?q)) :: real) \<le> of_int (2 ^ 53)"
    by (simp only: of_int_le_iff)
  then have "of_int (round_even (x / ?q)) * ?q \<le> 2 ^ 53 * ?q"
    using q by simp
  then show ?thesis
    by (simp add: binary64_pos [OF assms] two_powi_split53 mult.commute)
qed

lemma binary64_lower:
  assumes "0 < x" and "- 1022 \<le> exponent x"
  shows "2 powi (exponent x) \<le> binary64 x"
proof -
  let ?q = "(2::real) powi ulp_exp x"
  have q: "0 < ?q" by simp
  from assms(2) have e: "exponent x = ulp_exp x + 52" by (simp add: ulp_exp_def)
  with exponent_bounds [OF assms(1)] have "?q * 2 ^ 52 \<le> x"
    by (simp add: two_powi_split52)
  then have "of_int (2 ^ 52) \<le> x / ?q"
    using q by (simp add: field_simps)
  then have "2 ^ 52 \<le> round_even (x / ?q)" by (rule round_even_ge)
  then have "(of_int (2 ^ 52) :: real) \<le> of_int (round_even (x / ?q))"
    by (simp only: of_int_le_iff)
  then have "2 ^ 52 * ?q \<le> of_int (round_even (x / ?q)) * ?q"
    using q by simp
  then show ?thesis
    by (simp add: binary64_pos [OF assms(1)] e two_powi_split52 mult.commute)
qed

lemma exponent_mono:
  assumes "0 < x" "x \<le> y"
  shows "exponent x \<le> exponent y"
proof (rule ccontr)
  assume "\<not> exponent x \<le> exponent y"
  then have "exponent y + 1 \<le> exponent x" by simp
  then have "(2::real) powi (exponent y + 1) \<le> 2 powi (exponent x)"
    by (intro power_int_increasing) simp_all
  moreover from assms have "0 < y" by simp
  ultimately show False
    using exponent_bounds [OF assms(1)] exponent_bounds [OF \<open>0 < y\<close>] assms(2) by linarith
qed

lemma binary64_nonneg: "0 \<le> x \<Longrightarrow> 0 \<le> binary64 x"
proof (cases "x = 0")
  case True
  then show ?thesis by (simp add: binary64_0)
next
  case False
  assume "0 \<le> x"
  with False have pos: "0 < x" by simp
  have "0 \<le> round_even (x / 2 powi ulp_exp x)"
    using pos by (intro round_even_ge) simp
  then show ?thesis by (simp add: binary64_pos [OF pos])
qed

text \<open>Rounding keeps the order of non-negative numbers.\<close>

lemma binary64_mono:
  assumes "0 \<le> x" "x \<le> y"
  shows "binary64 x \<le> binary64 y"
proof (cases "x = 0")
  case True
  with assms show ?thesis by (simp add: binary64_0 binary64_nonneg)
next
  case False
  with assms have px: "0 < x" and py: "0 < y" by simp_all
  have le: "ulp_exp x \<le> ulp_exp y"
    using exponent_mono [OF px assms(2)] by (simp add: ulp_exp_def)
  show ?thesis
  proof (cases "ulp_exp x = ulp_exp y")
    case True
    have "x / 2 powi ulp_exp y \<le> y / 2 powi ulp_exp y"
      using assms(2) by (simp add: divide_right_mono)
    then have "round_even (x / 2 powi ulp_exp y) \<le> round_even (y / 2 powi ulp_exp y)"
      by (rule round_even_mono)
    then have "(of_int (round_even (x / 2 powi ulp_exp y)) :: real)
        \<le> of_int (round_even (y / 2 powi ulp_exp y))"
      by (simp only: of_int_le_iff)
    then show ?thesis
      by (simp add: binary64_pos [OF px] binary64_pos [OF py] True)
  next
    case False
    with le have lt: "ulp_exp x < ulp_exp y" by simp
    then have normal: "- 1022 \<le> exponent y" and ey: "exponent y = ulp_exp y + 52"
      by (auto simp: ulp_exp_def max_def split: if_splits)
    from lt ey have "ulp_exp x + 53 \<le> exponent y" by simp
    then have "(2::real) powi (ulp_exp x + 53) \<le> 2 powi (exponent y)"
      by (intro power_int_increasing) simp_all
    with binary64_upper [OF px] binary64_lower [OF py normal] show ?thesis
      by linarith
  qed
qed

text \<open>Every multiple of one half up to \<open>2^52\<close> is a double.\<close>

lemma binary64_exact_half:
  assumes "real k / 2 \<le> 2 ^ 52"
  shows "binary64 (real k / 2) = real k / 2"
proof (cases "k = 0")
  case True
  then show ?thesis by (simp add: binary64_0)
next
  case False
  let ?x = "real k / 2"
  from False have pos: "0 < ?x" and half: "1 / 2 \<le> ?x" by simp_all
  note b = exponent_bounds [OF pos]
  have lo: "- 1 \<le> exponent ?x"
  proof (rule ccontr)
    assume "\<not> - 1 \<le> exponent ?x"
    then have "exponent ?x + 1 \<le> - 1" by simp
    then have "(2::real) powi (exponent ?x + 1) \<le> 2 powi (- 1)"
      by (intro power_int_increasing) simp_all
    with b half show False by (simp add: power_int_minus)
  qed
  have hi: "exponent ?x \<le> 52"
  proof (rule ccontr)
    assume "\<not> exponent ?x \<le> 52"
    then have "53 \<le> exponent ?x" by simp
    then have "(2::real) powi 53 \<le> 2 powi (exponent ?x)"
      by (intro power_int_increasing) simp_all
    with b assms show False by simp
  qed
  from lo have u: "ulp_exp ?x = exponent ?x - 52" by (simp add: ulp_exp_def)
  have "\<exists>m::int. ?x / 2 powi ulp_exp ?x = of_int m"
  proof (cases "exponent ?x = 52")
    case True
    with b assms have x: "?x = 2 ^ 52" by simp
    from u True have "ulp_exp ?x = 0" by simp
    then have "?x / 2 powi ulp_exp ?x = ?x"
      by (simp only: power_int_0_right div_by_1)
    also have "\<dots> = of_int (2 ^ 52)"
      unfolding x by simp
    finally show ?thesis ..
  next
    case False
    with hi have "0 \<le> 51 - exponent ?x" by simp
    then obtain j :: nat where j: "51 - exponent ?x = int j"
      using nonneg_int_cases by blast
    then have "ulp_exp ?x = - int (j + 1)" by (simp add: u)
    then have "(2::real) powi ulp_exp ?x = 1 / 2 ^ (j + 1)"
      by (simp only: power_int_minus_divide power_int_of_nat)
    then have "?x / 2 powi ulp_exp ?x = ?x * 2 ^ (j + 1)"
      by simp
    also have "\<dots> = of_int (int k * 2 ^ j)" by simp
    finally show ?thesis ..
  qed
  then obtain m :: int where m: "?x / 2 powi ulp_exp ?x = of_int m" ..
  then have xeq: "?x = of_int m * 2 powi ulp_exp ?x"
    by (simp add: field_simps)
  have "binary64 ?x = of_int (round_even (of_int m)) * 2 powi ulp_exp ?x"
    unfolding binary64_pos [OF pos] m ..
  then have "binary64 ?x = of_int m * 2 powi ulp_exp ?x"
    by (simp only: round_even_of_int)
  with xeq show ?thesis by linarith
qed


text \<open>The facts that evaluate a rounding at a given number.\<close>

lemmas binary64_eval = binary64_def ulp_exp_def exponent.simps round_even_def power_int_minus

lemma binary64_three_fifths: "binary64 (3 / 5) = 5404319552844595 / 9007199254740992"
  by (simp add: binary64_eval)

lemma binary64_twenty_one_tenths: "binary64 (21 / 10) = 4728779608739021 / 2251799813685248"
  by (simp add: binary64_eval)

section \<open>The frame sampler\<close>

lemma sampling_interval_ge: "1 / 2 \<le> sampling_interval dur n"
  by (simp add: sampling_interval_def)

text \<open>
  A seek from a position below the duration lands on or above the next multiple of one half:
  that multiple is a double, and the interval is at least one half.
\<close>

lemma next_seek:
  assumes "1 / 2 \<le> I" "0 \<le> t" "t < dur" "dur + 1 / 2 \<le> 2 ^ 52"
  shows "(of_int \<lfloor>2 * t\<rfloor> + 1) / 2 \<le> binary64 (t + I)"
proof -
  define z :: real where "z = of_int \<lfloor>2 * t\<rfloor>"
  let ?k = "nat (\<lfloor>2 * t\<rfloor> + 1)"
  from assms(2) have "0 \<le> \<lfloor>2 * t\<rfloor>" by simp
  then have k: "real ?k = z + 1" by (simp add: z_def)
  have fl: "z \<le> 2 * t" unfolding z_def by (rule of_int_floor_le)
  then have le: "real ?k / 2 \<le> t + 1 / 2"
    unfolding k by argo
  with assms(3,4) have "real ?k / 2 \<le> 2 ^ 52" by argo
  then have exact: "binary64 (real ?k / 2) = real ?k / 2"
    by (rule binary64_exact_half)
  from le assms(1) have "real ?k / 2 \<le> t + I" by argo
  moreover have "0 \<le> real ?k / 2" by simp
  ultimately have "binary64 (real ?k / 2) \<le> binary64 (t + I)"
    by (rule binary64_mono [rotated])
  then have "real ?k / 2 \<le> binary64 (t + I)"
    by (simp only: exact)
  then show ?thesis
    unfolding k z_def .
qed

lemma next_seek_advances:
  assumes "1 / 2 \<le> I" "0 \<le> t" "t < dur" "dur + 1 / 2 \<le> 2 ^ 52"
  shows "t < binary64 (t + I)" and "0 \<le> binary64 (t + I)"
    and "\<lfloor>2 * t\<rfloor> + 1 \<le> \<lfloor>2 * binary64 (t + I)\<rfloor>"
proof -
  define z :: real where "z = of_int \<lfloor>2 * t\<rfloor>"
  have step: "(z + 1) / 2 \<le> binary64 (t + I)"
    unfolding z_def by (rule next_seek [OF assms])
  have up: "2 * t < z + 1"
    unfolding z_def by (rule real_of_int_floor_add_one_gt)
  with step show less: "t < binary64 (t + I)" by argo
  with assms(2) show "0 \<le> binary64 (t + I)" by linarith
  from step have "z + 1 \<le> 2 * binary64 (t + I)" by argo
  then have "of_int (\<lfloor>2 * t\<rfloor> + 1) \<le> 2 * binary64 (t + I)"
    by (simp add: z_def)
  then show "\<lfloor>2 * t\<rfloor> + 1 \<le> \<lfloor>2 * binary64 (t + I)\<rfloor>"
    by (simp only: le_floor_iff)
qed

text \<open>
  The loop resolves, with the frames so far followed by the captures at the remaining
  positions, cut off at the target count. \<open>k\<close> bounds the number of positions left.
\<close>

lemma captureFrame_closed:
  assumes "1 / 2 \<le> I" "dur + 1 / 2 \<le> 2 ^ 52"
  shows "0 \<le> t \<Longrightarrow> nat (\<lceil>2 * dur\<rceil> - \<lfloor>2 * t\<rfloor>) \<le> k \<Longrightarrow>
    captureFrame b c dur n I t fs =
      Some (fs @ take (n - length fs) (List.map_filter (snapshot b c) (seek_times dur I k t)))"
proof (induction k arbitrary: t fs)
  case 0
  then have "\<lceil>2 * dur\<rceil> \<le> \<lfloor>2 * t\<rfloor>" by simp
  then have "(of_int \<lceil>2 * dur\<rceil> :: real) \<le> of_int \<lfloor>2 * t\<rfloor>"
    by (simp only: of_int_le_iff)
  then have "2 * dur \<le> 2 * t"
    using le_of_int_ceiling [of "2 * dur"] of_int_floor_le [of "2 * t"]
    by (rule_tac order_trans [OF order_trans])
  then have "dur \<le> t" by simp
  then show ?case
    by (subst captureFrame.simps) simp
next
  case (Suc k)
  show ?case
  proof (cases "dur \<le> t")
    case True
    then show ?thesis by (subst captureFrame.simps) simp
  next
    case False
    then have lt: "t < dur" by simp
    note adv = next_seek_advances [OF assms(1) Suc.prems(1) lt assms(2)]
    from adv(3) Suc.prems(2) have fuel: "nat (\<lceil>2 * dur\<rceil> - \<lfloor>2 * binary64 (t + I)\<rfloor>) \<le> k"
      by linarith
    note IH = Suc.IH [OF adv(2) fuel]
    show ?thesis
    proof (cases "n \<le> length fs")
      case True
      then show ?thesis by (subst captureFrame.simps) simp
    next
      case full: False
      show ?thesis
      proof (cases "toBlob b c t")
        case None
        then have "snapshot b c t = None" by (simp add: snapshot_def)
        with None full lt show ?thesis
          by (subst captureFrame.simps) (simp add: IH)
      next
        case (Some bl)
        from full have "n - length fs = Suc (n - Suc (length fs))" by simp
        moreover from Some have "snapshot b c t =
            Some \<lparr>FrameData.timeOffset = t, base64 = toDataURL b c t, blob = bl\<rparr>"
          by (simp add: snapshot_def)
        ultimately show ?thesis
          using Some full lt by (subst captureFrame.simps) (simp add: IH)
      qed
    qed
  qed
qed

lemma extract_closed:
  assumes "getContext b" and "duration md + 1 / 2 \<le> 2 ^ 52"
  shows "extractFramesFromVideo b (LoadedMetadata md) n =
    Some (Inr (take n (List.map_filter (snapshot b (canvas_width md, canvas_height md))
      (seek_times (duration md) (sampling_interval (duration md) n)
         (nat \<lceil>2 * duration md\<rceil>) 0))))"
  using assms(1)
  by (simp add: extractFramesFromVideo_def
      captureFrame_closed [OF sampling_interval_ge assms(2), where t = 0 and k = "nat \<lceil>2 * duration md\<rceil>"])

lemma timeOffset_snapshots:
  "map FrameData.timeOffset (List.map_filter (snapshot b c) ts) = filter (\<lambda>t. toBlob b c t \<noteq> None) ts"
  by (induction ts) (auto simp: snapshot_def split: option.splits)

lemma length_seek_times: "length (seek_times dur I k t) \<le> k"
  by (induction k arbitrary: t) simp_all

lemma seek_times_bounds:
  assumes "1 / 2 \<le> I" "dur + 1 / 2 \<le> 2 ^ 52"
  shows "0 \<le> t \<Longrightarrow> x \<in> set (seek_times dur I k t) \<Longrightarrow> t \<le> x \<and> x < dur"
proof (induction k arbitrary: t)
  case 0
  then show ?case by simp
next
  case (Suc k)
  show ?case
  proof (cases "dur \<le> t")
    case True
    with Suc.prems show ?thesis by simp
  next
    case False
    then have lt: "t < dur" by simp
    note adv = next_seek_advances [OF assms(1) Suc.prems(1) lt assms(2)]
    from Suc.prems(2) False
    have "x = t \<or> x \<in> set (seek_times dur I k (binary64 (t + I)))" by simp
    then show ?thesis
    proof
      assume "x = t"
      with lt show ?thesis by simp
    next
      assume "x \<in> set (seek_times dur I k (binary64 (t + I)))"
      from Suc.IH [OF adv(2) this] adv(1) show ?thesis by simp
    qed
  qed
qed

lemma seek_times_increasing:
  assumes "1 / 2 \<le> I" "dur + 1 / 2 \<le> 2 ^ 52"
  shows "0 \<le> t \<Longrightarrow> sorted_wrt (<) (seek_times dur I k t)"
proof (induction k arbitrary: t)
  case 0
  then show ?case by simp
next
  case (Suc k)
  show ?case
  proof (cases "dur \<le> t")
    case True
    then show ?thesis by simp
  next
    case False
    then have lt: "t < dur" by simp
    note adv = next_seek_advances [OF assms(1) Suc.prems lt assms(2)]
    have "t < x" if "x \<in> set (seek_times dur I k (binary64 (t + I)))" for x
      using seek_times_bounds [OF assms adv(2) that] adv(1) by simp
    with Suc.IH [OF adv(2)] False show ?thesis by simp
  qed
qed

lemma sorted_wrt_take_filter:
  "sorted_wrt R xs \<Longrightarrow> sorted_wrt R (take n (filter P xs))"
  by (simp add: sorted_wrt_filter sorted_wrt_take)

lemma extract_timeOffsets:
  assumes "getContext b" and "duration md + 1 / 2 \<le> 2 ^ 52"
  shows "\<exists>fs. extractFramesFromVideo b (LoadedMetadata md) n = Some (Inr fs) \<and>
    map FrameData.timeOffset fs =
      take n (filter (\<lambda>t. toBlob b (canvas_width md, canvas_height md) t \<noteq> None)
        (seek_times (duration md) (sampling_interval (duration md) n)
           (nat \<lceil>2 * duration md\<rceil>) 0))"
  by (simp add: extract_closed [OF assms] take_map [symmetric] timeOffset_snapshots)

lemma binary64_le_half: "0 \<le> x \<Longrightarrow> x \<le> 1 / 2 \<Longrightarrow> binary64 x \<le> 1 / 2"
  using binary64_mono [of x "real 1 / 2"] binary64_exact_half [of 1] by simp

section \<open>Runs of the sampler at given inputs\<close>

lemma steady_context: "getContext steady_browser"
  by (simp add: steady_browser_def)

lemma run_clip_0:
  "extractFramesFromVideo steady_browser (LoadedMetadata (clip 0)) 120 = Some (Inr [])"
  by (simp add: extractFramesFromVideo_def steady_browser_def clip_def captureFrame.simps)

lemma interval_1_120: "sampling_interval 1 120 = 1 / 2"
  by (simp add: sampling_interval_def binary64_eval)

lemma run_clip_1:
  "extractFramesFromVideo steady_browser (LoadedMetadata (clip 1)) 120 =
     Some (Inr [still 0, still (1 / 2)])"
  by (simp add: extractFramesFromVideo_def steady_browser_def clip_def captureFrame.simps
      interval_1_120 still_def binary64_eval)

lemma interval_5_4_120: "sampling_interval (5 / 4) 120 = 1 / 2"
  by (simp add: sampling_interval_def binary64_eval)

lemma run_clip_5_4:
  "extractFramesFromVideo steady_browser (LoadedMetadata (clip (5 / 4))) 120 =
     Some (Inr [still 0, still (1 / 2), still 1])"
  by (simp add: extractFramesFromVideo_def steady_browser_def clip_def captureFrame.simps
      interval_5_4_120 still_def binary64_eval)

text \<open>
  Durations 7/2 with target 6 and 6 with target 10, the first \<^verbatim>\<open>toBlob\<close> giving no blob:
  the double sums drift above the duration in the first run and stay below it in the second.
\<close>

lemma interval_7_2_6: "sampling_interval (7 / 2) 6 = 5254199565265579 / 9007199254740992"
  by (simp add: sampling_interval_def binary64_eval)

lemma run_drift_up:
  "extractFramesFromVideo first_blob_null_browser (LoadedMetadata (clip (7 / 2))) 6 =
     Some (Inr [still (5254199565265579 / 9007199254740992),
                still (5254199565265579 / 4503599627370496),
                still (7 / 4),
                still (5254199565265579 / 2251799813685248),
                still (3283874728290987 / 1125899906842624)])"
  by (simp add: extractFramesFromVideo_def first_blob_null_browser_def clip_def
      captureFrame.simps interval_7_2_6 still_def binary64_eval)

lemma interval_6_10: "sampling_interval 6 10 = 5404319552844595 / 9007199254740992"
  by (simp add: sampling_interval_def binary64_eval)

lemma run_drift_down:
  "extractFramesFromVideo first_blob_null_browser (LoadedMetadata (clip 6)) 10 =
     Some (Inr [still (5404319552844595 / 9007199254740992),
                still (5404319552844595 / 4503599627370496),
                still (2026619832316723 / 1125899906842624),
                still (5404319552844595 / 2251799813685248),
                still 3,
                still (8106479329266893 / 2251799813685248),
                still (4728779608739021 / 1125899906842624),
                still (5404319552844595 / 1125899906842624),
                still (6079859496950169 / 1125899906842624),
                still (6755399441055743 / 1125899906842624)])"
  by (simp add: extractFramesFromVideo_def first_blob_null_browser_def clip_def
      captureFrame.simps interval_6_10 still_def binary64_eval)



text \<open>
  C4. For a video with positive duration and any target count \<open>n\<close> the sampler resolves
  with at most \<open>n\<close> frames. The interval is the larger of \<open>1/2\<close> and the double quotient
  \<open>duration / n\<close> (for \<open>n > 0\<close>; with \<open>n = 0\<close> no capture is attempted). The capture positions
  start at \<open>0\<close> and advance by the interval, each sum rounded to a double, as long as the
  position is below the duration; positions where \<^verbatim>\<open>toBlob\<close> gave no blob leave no frame,
  and the sampling stops once \<open>n\<close> frames are held. A result with fewer than \<open>n\<close> frames has
  gone through every position below the duration. When the first capture yields a blob the
  first frame is the one at \<open>0\<close>. For a duration of 12 seconds and a target of 120 the
  interval is \<open>1/2\<close> and at most 24 frames are captured. Durations are below \<open>2^52\<close> seconds:
  up to there every multiple of one half is a double, which the proof of progress uses.
\<close>

theorem C4_interval_and_count:
  assumes "getContext b" and "0 < duration md" and "duration md + 1 / 2 \<le> 2 ^ 52"
  shows "\<exists>fs. extractFramesFromVideo b (LoadedMetadata md) n = Some (Inr fs) \<and>
    length fs \<le> n \<and>
    (0 < n \<longrightarrow>
       sampling_interval (duration md) n = max (1 / 2) (binary64 (duration md / real n))) \<and>
    map FrameData.timeOffset fs =
      take n (filter (\<lambda>t. toBlob b (canvas_width md, canvas_height md) t \<noteq> None)
        (seek_times (duration md) (sampling_interval (duration md) n)
           (nat \<lceil>2 * duration md\<rceil>) 0)) \<and>
    (length fs < n \<longrightarrow>
       map FrameData.timeOffset fs =
         filter (\<lambda>t. toBlob b (canvas_width md, canvas_height md) t \<noteq> None)
           (seek_times (duration md) (sampling_interval (duration md) n)
              (nat \<lceil>2 * duration md\<rceil>) 0)) \<and>
    (0 < n \<and> toBlob b (canvas_width md, canvas_height md) 0 \<noteq> None \<longrightarrow>
       fs \<noteq> [] \<and> FrameData.timeOffset (hd fs) = 0) \<and>
    (duration md = 12 \<and> n = 120 \<longrightarrow>
       sampling_interval (duration md) n = 1 / 2 \<and> length fs \<le> 24)"
proof -
  let ?P = "\<lambda>t. toBlob b (canvas_width md, canvas_height md) t \<noteq> None"
  let ?I = "sampling_interval (duration md) n"
  let ?K = "nat \<lceil>2 * duration md\<rceil>"
  let ?grid = "seek_times (duration md) ?I ?K 0"
  from extract_timeOffsets [OF assms(1,3), of n] obtain fs
    where run: "extractFramesFromVideo b (LoadedMetadata md) n = Some (Inr fs)"
      and times: "map FrameData.timeOffset fs = take n (filter ?P ?grid)"
    by blast
  have lf: "length (filter ?P ?grid) \<le> length ?grid"
    by (rule length_filter_le)
  from times have "length fs = min (length (filter ?P ?grid)) n"
    by (metis length_map length_take)
  with lf have len: "length fs \<le> min n (length ?grid)"
    by arith
  then have count: "length fs \<le> n" by simp
  have all: "map FrameData.timeOffset fs = filter ?P ?grid" if "length fs < n"
  proof -
    from that times have "length (take n (filter ?P ?grid)) < n"
      by (metis length_map)
    then have "length (filter ?P ?grid) \<le> n" by simp
    with times show ?thesis by simp
  qed
  have formula: "0 < n \<longrightarrow> ?I = max (1 / 2) (binary64 (duration md / real n))"
    by (simp add: sampling_interval_def)
  have first: "fs \<noteq> [] \<and> FrameData.timeOffset (hd fs) = 0" if "0 < n \<and> ?P 0"
  proof -
    from assms(2) have "0 < \<lceil>2 * duration md\<rceil>" by simp
    then obtain k where "?K = Suc k"
      by (metis Suc_pred' zero_less_nat_eq)
    with assms(2) have "?grid = 0 # seek_times (duration md) ?I k (binary64 (0 + ?I))"
      by simp
    with that obtain rest where "take n (filter ?P ?grid) = 0 # rest"
      by (cases n) auto
    with times have m: "map FrameData.timeOffset fs = 0 # rest" by simp
    then have ne: "fs \<noteq> []" by auto
    with m have "FrameData.timeOffset (hd fs) = 0"
      by (metis hd_map list.sel(1))
    with ne show ?thesis by simp
  qed
  have scen: "?I = 1 / 2 \<and> length fs \<le> 24" if "duration md = 12 \<and> n = 120"
  proof -
    from that have d: "duration md = 12" and n: "n = 120" by simp_all
    have "binary64 (12 / real 120) \<le> 1 / 2"
      by (rule binary64_le_half) simp_all
    then have I: "?I = 1 / 2"
      unfolding d n sampling_interval_def by simp
    have "length ?grid \<le> ?K" by (rule length_seek_times)
    moreover have "?K = 24" unfolding d by simp
    ultimately have "length fs \<le> 24" using len by simp
    with I show ?thesis by simp
  qed
  from run count formula times all first scen show ?thesis by blast
qed

theorem C4_interval_and_count_witness:
  "getContext steady_browser \<and> 0 < duration (clip 12) \<and>
   duration (clip 12) + 1 / 2 \<le> 2 ^ 52 \<and>
   (\<exists>fs. extractFramesFromVideo steady_browser (LoadedMetadata (clip 12)) 120 = Some (Inr fs) \<and>
      length fs \<le> 120 \<and> length fs \<le> 24 \<and> length fs < 120 \<and>
      FrameData.timeOffset (hd fs) = 0 \<and> sampling_interval 12 120 = 1 / 2)"
proof -
  have pos: "0 < duration (clip 12)" by (simp add: clip_def)
  have small: "duration (clip 12) + 1 / 2 \<le> 2 ^ 52" by (simp add: clip_def)
  from C4_interval_and_count [OF steady_context pos small, of 120] obtain fs
    where "extractFramesFromVideo steady_browser (LoadedMetadata (clip 12)) 120 = Some (Inr fs)"
      and "length fs \<le> 120"
      and "(0::nat) < 120 \<and>
        toBlob steady_browser (canvas_width (clip 12), canvas_height (clip 12)) 0 \<noteq> None \<longrightarrow>
        fs \<noteq> [] \<and> FrameData.timeOffset (hd fs) = 0"
      and "duration (clip 12) = 12 \<and> (120::nat) = 120 \<longrightarrow>
        sampling_interval (duration (clip 12)) 120 = 1 / 2 \<and> length fs \<le> 24"
    by (elim exE conjE)
  with steady_context pos small show ?thesis
    by (auto simp: clip_def steady_browser_def)
qed

text \<open>
  C5. The frame sequence that the sampler resolves with has strictly increasing (hence
  non-decreasing) \<open>timeOffset\<close> values, and the last frame's \<open>timeOffset\<close> is at most the
  duration of the video. Durations are below \<open>2^52\<close> seconds; far above that bound a double
  position no longer grows when one half is added to it.
\<close>

theorem C5_increasing_below_duration:
  assumes "getContext b" and "duration md + 1 / 2 \<le> 2 ^ 52"
  shows "\<exists>fs. extractFramesFromVideo b (LoadedMetadata md) n = Some (Inr fs) \<and>
    sorted_wrt (<) (map FrameData.timeOffset fs) \<and>
    sorted (map FrameData.timeOffset fs) \<and>
    (fs \<noteq> [] \<longrightarrow> FrameData.timeOffset (last fs) \<le> duration md)"
proof -
  let ?I = "sampling_interval (duration md) n"
  let ?ts = "seek_times (duration md) ?I (nat \<lceil>2 * duration md\<rceil>) 0"
  from extract_timeOffsets [OF assms, of n] obtain fs
    where run: "extractFramesFromVideo b (LoadedMetadata md) n = Some (Inr fs)"
      and times: "map FrameData.timeOffset fs =
        take n (filter (\<lambda>t. toBlob b (canvas_width md, canvas_height md) t \<noteq> None) ?ts)"
    by blast
  have "sorted_wrt (<) ?ts"
    by (rule seek_times_increasing [OF sampling_interval_ge assms(2)]) simp
  then have inc: "sorted_wrt (<) (map FrameData.timeOffset fs)"
    unfolding times by (rule sorted_wrt_take_filter)
  then have nondec: "sorted (map FrameData.timeOffset fs)"
    by (rule sorted_wrt_mono_rel [rotated]) simp
  have "FrameData.timeOffset (last fs) \<le> duration md" if "fs \<noteq> []"
  proof -
    from that have "FrameData.timeOffset (last fs) \<in> set (map FrameData.timeOffset fs)"
      by simp
    then have "FrameData.timeOffset (last fs) \<in> set ?ts"
      unfolding times by (auto dest: in_set_takeD)
    from seek_times_bounds [OF sampling_interval_ge assms(2) _ this] show ?thesis by simp
  qed
  with run inc nondec show ?thesis by blast
qed

theorem C5_increasing_below_duration_witness:
  "getContext steady_browser \<and> duration (clip (5 / 4)) + 1 / 2 \<le> 2 ^ 52 \<and>
   (\<exists>fs. extractFramesFromVideo steady_browser (LoadedMetadata (clip (5 / 4))) 120 = Some (Inr fs) \<and>
      map FrameData.timeOffset fs = [0, 1 / 2, 1] \<and>
      sorted_wrt (<) (map FrameData.timeOffset fs) \<and>
      FrameData.timeOffset (last fs) \<le> 5 / 4)"
proof -
  have small: "duration (clip (5 / 4)) + 1 / 2 \<le> 2 ^ 52" by (simp add: clip_def)
  from C5_increasing_below_duration [OF steady_context small, of 120] obtain fs
    where run: "extractFramesFromVideo steady_browser (LoadedMetadata (clip (5 / 4))) 120 = Some (Inr fs)"
      and inc: "sorted_wrt (<) (map FrameData.timeOffset fs)"
      and fin: "fs \<noteq> [] \<longrightarrow> FrameData.timeOffset (last fs) \<le> duration (clip (5 / 4))"
    by (elim exE conjE)
  from run have fs: "fs = [still 0, still (1 / 2), still 1]"
    by (simp add: run_clip_5_4)
  then have "map FrameData.timeOffset fs = [0, 1 / 2, 1]"
    by (simp add: still_def)
  moreover from fin fs have "FrameData.timeOffset (last fs) \<le> 5 / 4"
    by (simp add: clip_def)
  ultimately show ?thesis
    using steady_context small run inc by auto
qed

text \<open>
  C6, as the code has it. When the video element fires \<^verbatim>\<open>error\<close> the sampler rejects with
  the load-failure \<^verbatim>\<open>Error\<close>. When the metadata loads with a duration of 0 the sampler
  does not fail: the first \<^verbatim>\<open>seeked\<close> event meets \<^verbatim>\<open>currentTime >= duration\<close> and the
  promise resolves with the empty frame sequence.
\<close>

theorem C6_load_error_rejects_zero_duration_resolves:
  assumes "getContext b"
  shows "extractFramesFromVideo b LoadError n = Some (Inl (Error msg_load_failed)) \<and>
    (duration md = 0 \<longrightarrow> extractFramesFromVideo b (LoadedMetadata md) n = Some (Inr []))"
  using assms
  by (simp add: extractFramesFromVideo_def captureFrame.simps [of _ _ 0])

theorem C6_load_error_rejects_zero_duration_resolves_witness:
  "getContext steady_browser \<and>
   extractFramesFromVideo steady_browser LoadError 120 = Some (Inl (Error msg_load_failed)) \<and>
   duration (clip 0) = 0 \<and>
   extractFramesFromVideo steady_browser (LoadedMetadata (clip 0)) 120 = Some (Inr [])"
proof -
  have "duration (clip 0) = 0" by (simp add: clip_def)
  with C6_load_error_rejects_zero_duration_resolves [OF steady_context, of 120 "clip 0"]
    steady_context
  show ?thesis by simp
qed

text \<open>
  C6 as stated fails: a video whose metadata loads with duration 0 makes the sampler
  resolve with no frames instead of rejecting.
\<close>

theorem C6_zero_duration_counterexample:
  "duration (clip 0) = 0 \<and>
   extractFramesFromVideo steady_browser (LoadedMetadata (clip 0)) 120 = Some (Inr [])"
  by (simp add: run_clip_0) (simp add: clip_def)

text \<open>
  C7, as the code has it. A seek position at or past the duration, however it came about,
  ends the sampling with exactly the frames held so far: nothing is captured there and the
  position is not pulled back below the duration. Every frame of the result sits at one of
  the positions reached from \<open>0\<close> by adding the interval, strictly below the duration.
\<close>

theorem C7_stops_without_capture:
  assumes "getContext b" and "duration md + 1 / 2 \<le> 2 ^ 52"
  shows "(dur \<le> t \<longrightarrow> captureFrame b c dur n I t fs0 = Some fs0) \<and>
    (\<exists>fs. extractFramesFromVideo b (LoadedMetadata md) n = Some (Inr fs) \<and>
       (\<forall>f \<in> set fs. FrameData.timeOffset f < duration md \<and>
          FrameData.timeOffset f \<in>
            set (seek_times (duration md) (sampling_interval (duration md) n)
                   (nat \<lceil>2 * duration md\<rceil>) 0)))"
proof -
  let ?I = "sampling_interval (duration md) n"
  let ?ts = "seek_times (duration md) ?I (nat \<lceil>2 * duration md\<rceil>) 0"
  have stop: "captureFrame b c dur n I t fs0 = Some fs0" if "dur \<le> t"
    using that by (subst captureFrame.simps) simp
  from extract_timeOffsets [OF assms, of n] obtain fs
    where run: "extractFramesFromVideo b (LoadedMetadata md) n = Some (Inr fs)"
      and times: "map FrameData.timeOffset fs =
        take n (filter (\<lambda>t. toBlob b (canvas_width md, canvas_height md) t \<noteq> None) ?ts)"
    by blast
  have "FrameData.timeOffset f < duration md \<and> FrameData.timeOffset f \<in> set ?ts"
    if "f \<in> set fs" for f
  proof -
    from that have "FrameData.timeOffset f \<in> set (map FrameData.timeOffset fs)"
      by simp
    then have mem: "FrameData.timeOffset f \<in> set ?ts"
      unfolding times by (auto dest: in_set_takeD)
    from seek_times_bounds [OF sampling_interval_ge assms(2) _ mem] mem show ?thesis by simp
  qed
  with run stop show ?thesis by blast
qed

theorem C7_stops_without_capture_witness:
  "getContext first_blob_null_browser \<and> duration (clip (7 / 2)) + 1 / 2 \<le> 2 ^ 52 \<and>
   (7 / 2 :: real) \<le> 7881299347898369 / 2251799813685248 \<and>
   captureFrame first_blob_null_browser (960, 540) (7 / 2) 6 (sampling_interval (7 / 2) 6)
     (7881299347898369 / 2251799813685248) [still (7 / 4)] = Some [still (7 / 4)] \<and>
   (\<exists>fs. extractFramesFromVideo first_blob_null_browser (LoadedMetadata (clip (7 / 2))) 6
        = Some (Inr fs) \<and>
      length fs = 5 \<and> FrameData.timeOffset (last fs) = 3283874728290987 / 1125899906842624)"
proof -
  have ctx: "getContext first_blob_null_browser"
    by (simp add: first_blob_null_browser_def)
  have small: "duration (clip (7 / 2)) + 1 / 2 \<le> 2 ^ 52" by (simp add: clip_def)
  have le: "(7 / 2 :: real) \<le> 7881299347898369 / 2251799813685248" by simp
  from C7_stops_without_capture [OF ctx small,
      of "7 / 2" "7881299347898369 / 2251799813685248" "(960, 540)" 6
         "sampling_interval (7 / 2) 6" "[still (7 / 4)]"] le
  have stop: "captureFrame first_blob_null_browser (960, 540) (7 / 2) 6 (sampling_interval (7 / 2) 6)
     (7881299347898369 / 2251799813685248) [still (7 / 4)] = Some [still (7 / 4)]"
    by blast
  have "\<exists>fs. extractFramesFromVideo first_blob_null_browser (LoadedMetadata (clip (7 / 2))) 6
        = Some (Inr fs) \<and>
      length fs = 5 \<and> FrameData.timeOffset (last fs) = 3283874728290987 / 1125899906842624"
    by (simp add: run_drift_up still_def)
  with ctx small le stop show ?thesis by simp
qed

text \<open>
  C7 as stated fails under drift: duration 7/2 seconds, target 6, the first \<^verbatim>\<open>toBlob\<close>
  giving no blob. The interval is the double of 7/12. Six exact steps of 7/12 make exactly
  7/2, but the sixth double sum is 3.5000000000000004, past the duration. The sampler
  resolves there with five frames, one fewer than the target, the last at
  2.916666666666667: the seek is not pulled back to just below 7/2 and no frame is taken
  there.
\<close>

theorem C7_drift_counterexample:
  "extractFramesFromVideo first_blob_null_browser (LoadedMetadata (clip (7 / 2))) 6 =
     Some (Inr [still (5254199565265579 / 9007199254740992),
                still (5254199565265579 / 4503599627370496),
                still (7 / 4),
                still (5254199565265579 / 2251799813685248),
                still (3283874728290987 / 1125899906842624)]) \<and>
   binary64 (3283874728290987 / 1125899906842624 + sampling_interval (7 / 2) 6)
     = 7881299347898369 / 2251799813685248 \<and>
   (7 / 2 :: real) < 7881299347898369 / 2251799813685248 \<and>
   (6 * (7 / 2 / 6) :: real) = 7 / 2"
  by (simp add: run_drift_up) (simp add: interval_7_2_6 binary64_eval)

section \<open>The canvas size\<close>














section \<open>Failures of the analysis and the orchestrator\<close>

lemma processProject_analysis_fails:
  assumes "extractFramesFromVideo b f 120 = Some (Inr fs)"
    and "analyzeVideoFrames env fs = Inl err"
  shows "processProject b env pid f prev =
    map (\<lambda>p. if project_id p = pid
          then p\<lparr>status := Errored, frames := fs,
                 error := Some (if message err = [] then msg_processing_failed else message err)\<rparr>
          else p) prev"
  using assms
  by (simp add: processProject_def Let_def updateProject_def updateProjectStatus_def on_catch_def
      comp_def)

lemma msg_no_result_nonempty: "msg_no_result \<noteq> []"
  by (simp add: msg_no_result_def)

lemma msg_undefined_read_nonempty: "msg_undefined_read \<noteq> []"
  by (simp add: msg_undefined_read_def)

lemma analyze_no_text:
  assumes "getClient (API_KEY env) = Inr ()"
    and "generateContent env (contentParts fs) = Inr text"
    and "text = None \<or> text = Some []"
  shows "analyzeVideoFrames env fs = Inl (Error msg_no_result)"
  using assms by (auto simp: analyzeVideoFrames_def)

text \<open>
  C8. When the remote call yields a response with no text or an empty text,
  \<^verbatim>\<open>analyzeVideoFrames\<close> throws the no-result \<^verbatim>\<open>Error\<close> and returns no result; the
  orchestrator then leaves the project in the error state with that non-empty message, its
  \<open>result\<close> untouched and its captured frames kept, and leaves every other project as it
  was.
\<close>

theorem C8_no_text_fails:
  assumes "getClient (API_KEY env) = Inr ()"
    and "generateContent env (contentParts fs) = Inr text"
    and "text = None \<or> text = Some []"
    and "extractFramesFromVideo b f 120 = Some (Inr fs)"
  shows "analyzeVideoFrames env fs = Inl (Error msg_no_result) \<and>
    msg_no_result \<noteq> [] \<and>
    processProject b env pid f prev =
      map (\<lambda>p. if project_id p = pid
            then p\<lparr>status := Errored, frames := fs, error := Some msg_no_result\<rparr>
            else p) prev"
proof -
  note fails = analyze_no_text [OF assms(1,2,3)]
  from processProject_analysis_fails [OF assms(4) fails, of pid prev]
  show ?thesis by (simp add: fails msg_no_result_nonempty)
qed

theorem C8_no_text_fails_witness:
  "getClient (API_KEY silent_env) = Inr () \<and>
   generateContent silent_env (contentParts [still 0, still (1 / 2)]) = Inr None \<and>
   extractFramesFromVideo steady_browser (LoadedMetadata (clip 1)) 120
     = Some (Inr [still 0, still (1 / 2)]) \<and>
   analyzeVideoFrames silent_env [still 0, still (1 / 2)] = Inl (Error msg_no_result) \<and>
   map status (processProject steady_browser silent_env ''a'' (LoadedMetadata (clip 1))
     [fresh_project ''a'', fresh_project ''b'']) = [Errored, Idle] \<and>
   map error (processProject steady_browser silent_env ''a'' (LoadedMetadata (clip 1))
     [fresh_project ''a'', fresh_project ''b'']) = [Some msg_no_result, None] \<and>
   map result (processProject steady_browser silent_env ''a'' (LoadedMetadata (clip 1))
     [fresh_project ''a'', fresh_project ''b'']) = [None, None] \<and>
   map frames (processProject steady_browser silent_env ''a'' (LoadedMetadata (clip 1))
     [fresh_project ''a'', fresh_project ''b'']) = [[still 0, still (1 / 2)], []]"
proof -
  have key: "getClient (API_KEY silent_env) = Inr ()"
    by (simp add: getClient_def silent_env_def)
  have call: "generateContent silent_env (contentParts [still 0, still (1 / 2)]) = Inr None"
    by (simp add: silent_env_def)
  from C8_no_text_fails [OF key call _ run_clip_1, of "''a''" "[fresh_project ''a'', fresh_project ''b'']"]
  show ?thesis
    by (simp add: key call run_clip_1 fresh_project_def)
qed

lemma reconcile_no_frames:
  assumes "timeline r \<noteq> []"
  shows "reconcile [] r = Inl (TypeError msg_undefined_read)"
proof -
  from assms obtain item rest where "timeline r = item # rest"
    by (cases "timeline r") auto
  then show ?thesis
    by (simp add: reconcile_def processItem_def frame_at_def safeIndex_def)
qed

text \<open>
  C10. With no frames the clamp of line 111 gives \<open>-1\<close> for every raw index, the lookup
  \<^verbatim>\<open>frames[-1]\<close> is \<^verbatim>\<open>undefined\<close>, and for a parsed response with a non-empty timeline
  the reconciliation, and with it \<^verbatim>\<open>analyzeVideoFrames\<close>, throws a TypeError.
  \<^verbatim>\<open>processProject\<close> hands an empty sampler result to the analysis unchecked and ends in
  the error state with the TypeError's message.
\<close>

theorem C10_no_frames_throws:
  assumes "timeline r \<noteq> []"
    and "getClient (API_KEY env) = Inr ()"
    and "generateContent env (contentParts []) = Inr (Some text)"
    and "text \<noteq> []"
    and "JSON_parse env text = Inr r"
    and "extractFramesFromVideo b f 120 = Some (Inr [])"
  shows "safeIndex [] item = - 1 \<and> frame_at [] (- 1) = None \<and>
    processItem [] item = Inl (TypeError msg_undefined_read) \<and>
    reconcile [] r = Inl (TypeError msg_undefined_read) \<and>
    analyzeVideoFrames env [] = Inl (TypeError msg_undefined_read) \<and>
    processProject b env pid f prev =
      map (\<lambda>p. if project_id p = pid
            then p\<lparr>status := Errored, frames := [], error := Some msg_undefined_read\<rparr>
            else p) prev"
proof -
  have idx: "safeIndex [] item = - 1"
    by (simp add: safeIndex_def)
  have undef: "frame_at [] (- 1) = None"
    by (simp add: frame_at_def)
  have one: "processItem [] item = Inl (TypeError msg_undefined_read)"
    by (simp add: processItem_def idx undef)
  note rec = reconcile_no_frames [OF assms(1)]
  have fails: "analyzeVideoFrames env [] = Inl (TypeError msg_undefined_read)"
    using assms(2-5) by (simp add: analyzeVideoFrames_def rec)
  from processProject_analysis_fails [OF assms(6) fails, of pid prev]
  have "processProject b env pid f prev =
      map (\<lambda>p. if project_id p = pid
            then p\<lparr>status := Errored, frames := [], error := Some msg_undefined_read\<rparr>
            else p) prev"
    by (simp add: msg_undefined_read_nonempty)
  with idx undef one rec fails show ?thesis by simp
qed

theorem C10_no_frames_throws_witness:
  "timeline raw_result \<noteq> [] \<and>
   extractFramesFromVideo steady_browser (LoadedMetadata (clip 0)) 120 = Some (Inr []) \<and>
   safeIndex [] (raw_item 999) = - 1 \<and>
   reconcile [] raw_result = Inl (TypeError msg_undefined_read) \<and>
   analyzeVideoFrames answering_env [] = Inl (TypeError msg_undefined_read) \<and>
   map status (processProject steady_browser answering_env ''a'' (LoadedMetadata (clip 0))
     [fresh_project ''a'', fresh_project ''b'']) = [Errored, Idle] \<and>
   map error (processProject steady_browser answering_env ''a'' (LoadedMetadata (clip 0))
     [fresh_project ''a'', fresh_project ''b'']) = [Some msg_undefined_read, None]"
proof -
  have tl: "timeline raw_result \<noteq> []"
    by (simp add: raw_result_def)
  have key: "getClient (API_KEY answering_env) = Inr ()"
    by (simp add: getClient_def answering_env_def)
  have call: "generateContent answering_env (contentParts []) = Inr (Some ''{...}'')"
    by (simp add: answering_env_def)
  have parse: "JSON_parse answering_env ''{...}'' = Inr raw_result"
    by (simp add: answering_env_def)
  from C10_no_frames_throws [OF tl key call _ parse run_clip_0,
      of "raw_item 999" "''a''" "[fresh_project ''a'', fresh_project ''b'']"]
  show ?thesis
    by (simp add: tl run_clip_0 fresh_project_def)
qed

end
